theory Spec2Isabelle
  imports Complex_Main "HOL-Library.Word" "HOL-Library.Log_Nat"
begin

section \<open>JavaScript strings and the built-ins the chunkers call\<close>

text \<open>
  A JavaScript string is a sequence of UTF-16 code units: \<open>s.length\<close> counts code units,
  \<open>s.slice\<close>, \<open>s.split\<close> and a regular expression without the \<open>u\<close> flag work on code
  units. A character outside the Basic Multilingual Plane is two code units (a surrogate
  pair).
\<close>

type_synonym ustring = "16 word list"

definition ascii :: "string \<Rightarrow> ustring" where
  "ascii s = map (\<lambda>c. of_nat (of_char c)) s"

text \<open>
  \<open>String.prototype.slice(start, end)\<close>: a negative position counts from the end of the
  string, both positions are clamped to \<open>0..length\<close>, and the result is empty when the
  end is not after the start.
\<close>

definition js_slice :: "ustring \<Rightarrow> int \<Rightarrow> int \<Rightarrow> ustring" where
  "js_slice s start fin =
     (let len = int (length s);
          lo = (if start < 0 then max (len + start) 0 else min start len);
          hi = (if fin < 0 then max (len + fin) 0 else min fin len)
      in take (nat (hi - lo)) (drop (nat lo) s))"

text \<open>\<open>s.slice(start)\<close>: the end defaults to the length of the string.\<close>

definition js_slice_from :: "ustring \<Rightarrow> int \<Rightarrow> ustring" where
  "js_slice_from s start = js_slice s start (int (length s))"

text \<open>\<open>s.includes(sep)\<close>: \<open>sep\<close> occurs in \<open>s\<close>; the empty string occurs in every string.\<close>

fun js_includes :: "ustring \<Rightarrow> ustring \<Rightarrow> bool" where
  "js_includes [] sep = (sep = [])"
| "js_includes (c # cs) sep = (take (length sep) (c # cs) = sep \<or> js_includes cs sep)"

text \<open>
  \<open>s.split(sep)\<close> for a string separator: with the empty separator, the code units of
  \<open>s\<close> one by one (none for the empty string); otherwise the pieces between the
  occurrences of \<open>sep\<close>, found from left to right without overlap. \<open>split_from sep cur rest\<close>
  scans \<open>rest\<close> with \<open>cur\<close> the piece read so far.
\<close>

fun split_from :: "ustring \<Rightarrow> ustring \<Rightarrow> ustring \<Rightarrow> ustring list" where
  "split_from sep cur [] = [cur]"
| "split_from sep cur (c # cs) =
     (if sep \<noteq> [] \<and> take (length sep) (c # cs) = sep
      then cur # split_from sep [] (drop (length sep - 1) cs)
      else split_from sep (cur @ [c]) cs)"

definition js_split :: "ustring \<Rightarrow> ustring \<Rightarrow> ustring list" where
  "js_split s sep = (if sep = [] then map (\<lambda>c. [c]) s else split_from sep [] s)"

text \<open>
  \<open>s.trim()\<close> removes leading and trailing white space and line terminators
  (ECMAScript's WhiteSpace and LineTerminator productions).
\<close>

definition is_whitespace :: "16 word \<Rightarrow> bool" where
  "is_whitespace c =
     (c \<in> {0x0009, 0x000A, 0x000B, 0x000C, 0x000D, 0x0020, 0x00A0, 0x1680,
            0x2028, 0x2029, 0x202F, 0x205F, 0x3000, 0xFEFF}
      \<or> (0x2000 \<le> c \<and> c \<le> 0x200A))"

definition js_trim :: "ustring \<Rightarrow> ustring" where
  "js_trim s = rev (dropWhile is_whitespace (rev (dropWhile is_whitespace s)))"

text \<open>
  A template literal renders an integer in decimal. (The numbers rendered here are chunk
  indices and millisecond timestamps, far below \<open>10^21\<close>, where JavaScript would switch
  to exponent notation.)
\<close>

fun decimal :: "nat \<Rightarrow> ustring" where
  "decimal n =
     (if n < 10 then [of_nat (48 + n)] else decimal (n div 10) @ [of_nat (48 + n mod 10)])"

declare decimal.simps [simp del]

definition number_to_string :: "int \<Rightarrow> ustring" where
  "number_to_string i = (if i < 0 then 0x2D # decimal (nat (- i)) else decimal (nat i))"

section \<open>Data model (types.ts)\<close>

text \<open>
  \<open>Chunk\<close> and \<open>ChunkingConfig\<close>. The fields \<open>id\<close> and \<open>length\<close> are primed, since
  \<open>id\<close> and \<open>length\<close> are constants of HOL. The chunkers read only \<open>chunkSize\<close>,
  \<open>chunkOverlap\<close> and \<open>separators\<close> of the configuration; the fields of the semantic
  provider are left out.

  \<open>chunkSize\<close> and \<open>chunkOverlap\<close> are JavaScript numbers, that is IEEE doubles; the
  model takes them to hold integers (the control panel sets them with \<open>parseInt\<close>). A
  double holds every integer up to \<open>2^53\<close> in magnitude and, beyond, only the integers
  with 53 significant bits, and every arithmetic operation returns the double nearest to
  its exact result.
\<close>

record Chunk =
  id' :: ustring
  content :: ustring
  index :: nat
  length' :: nat
  tokenCount :: int

record ChunkingConfig =
  chunkSize :: int
  chunkOverlap :: int
  separators :: "ustring list"

section \<open>Arithmetic on doubles\<close>

text \<open>
  \<open>dbl n\<close> is the double nearest to the integer \<open>n\<close>, with a tie going to the even
  mantissa: up to \<open>2^53\<close> in magnitude it is \<open>n\<close>; beyond, \<open>n\<close> is cut to its 53
  leading bits \<open>q\<close> and the rest \<open>r\<close> decides the direction. (From \<open>2^1024\<close> on the
  double is \<open>Infinity\<close>; \<open>dbl\<close> keeps a finite number there, which the chunker below
  treats the same way: it only compares it with the length of the text.)

  The fixed-size chunker subtracts twice, \<open>chunkSize - 1\<close> and then
  \<open>chunkSize - effectiveOverlap\<close>, so that one rounding can cancel its whole step: its
  arithmetic is modelled with \<open>dbl\<close>. The recursive chunker subtracts once at a time
  (\<open>chunkSize - chunkOverlap\<close> for the step of its hard split, whose rounding keeps its
  sign, and \<open>currentUnit.length - chunkOverlap\<close> under \<open>Math.max(0, ...)\<close>) and adds to
  a position in a string, whose result is only compared with the length of the string or
  clamped by \<open>slice\<close>; it and the JSON chunker add lengths of strings (and 2), which
  they compare with \<open>chunkSize\<close>. Rounding changes a result only beyond \<open>2^53\<close> and
  leaves it beyond \<open>2^53\<close>, on the same side of every length; so there the exact integer
  stands for the double, for strings whose lengths add up to no more than \<open>2^53\<close>, as
  those of a JavaScript engine do.
\<close>

definition dbl :: "int \<Rightarrow> int" where
  "dbl n =
     (if \<bar>n\<bar> \<le> 2 ^ 53 then n
      else
        let e = nat (bitlen \<bar>n\<bar> - 53);
            q = \<bar>n\<bar> div 2 ^ e;
            r = \<bar>n\<bar> mod 2 ^ e;
            q' = (if 2 * r > 2 ^ e \<or> (2 * r = 2 ^ e \<and> odd q) then q + 1 else q)
        in sgn n * (q' * 2 ^ e))"

section \<open>estimateTokenCount\<close>

text \<open>
  The regular expression of the source is a character class of five ranges of code units,
  4e00-9fa5, 3040-30ff, 3400-4dbf, f900-faff and ff66-ff9f (hexadecimal), with the flag
  \<open>g\<close> and without the flag \<open>u\<close>: \<open>text.match\<close> returns the matching code units, one
  by one, or \<open>null\<close> when there is none.
\<close>

definition cjkRegex :: "16 word \<Rightarrow> bool" where
  "cjkRegex c =
     ((0x4e00 \<le> c \<and> c \<le> 0x9fa5) \<or> (0x3040 \<le> c \<and> c \<le> 0x30ff) \<or>
      (0x3400 \<le> c \<and> c \<le> 0x4dbf) \<or> (0xf900 \<le> c \<and> c \<le> 0xfaff) \<or>
      (0xff66 \<le> c \<and> c \<le> 0xff9f))"

definition estimateTokenCount :: "ustring \<Rightarrow> int" where
  "estimateTokenCount txt =
     (let cjkCount = int (length (filter cjkRegex txt));
          otherCount = max 0 (int (length txt) - cjkCount)
      in cjkCount + \<lceil>real_of_int otherCount / 4\<rceil>)"

section \<open>Chunk records\<close>

text \<open>
  Every chunker builds its records the same way, with its own prefix of the identifier:
  \<^verbatim>\<open>{ id: `chunk-${index}-${Date.now()}`, index, content, length: content.length,
    tokenCount: estimateTokenCount(content) }\<close>.
  \<open>Date.now()\<close> reads the wall clock; the model takes the clock as an input: \<open>clock k\<close> is
  the value of the \<open>k\<close>-th reading (counted from 0) during one invocation.
\<close>

definition mkChunk :: "ustring \<Rightarrow> nat \<Rightarrow> int \<Rightarrow> ustring \<Rightarrow> Chunk" where
  "mkChunk tag i now c =
     \<lparr> id' = tag @ number_to_string (int i) @ ascii ''-'' @ number_to_string now,
       content = c,
       index = i,
       length' = length c,
       tokenCount = estimateTokenCount c \<rparr>"

section \<open>generateFixedSizeChunks\<close>

text \<open>
  The \<open>while (start < text.length)\<close> loop. Nothing in the loop itself bounds the number
  of its iterations, so it is a partial function: \<open>None\<close> stands for a loop that never
  ends. The \<open>k\<close>-th chunk is built at the \<open>k\<close>-th reading of the clock. The sums
  \<open>start + chunkSize\<close> and \<open>start + step\<close>, like the two differences that give the
  step, are rounded to doubles.
\<close>

partial_function (option) fixed_loop ::
  "(nat \<Rightarrow> int) \<Rightarrow> ustring \<Rightarrow> int \<Rightarrow> int \<Rightarrow> int \<Rightarrow> nat \<Rightarrow> Chunk list \<Rightarrow> Chunk list option"
where
  "fixed_loop clock txt csize step start i chunks =
     (if start < int (length txt)
      then fixed_loop clock txt csize step (dbl (start + step)) (i + 1)
             (chunks @ [mkChunk (ascii ''chunk-'') i (clock i)
                          (js_slice txt start (min (dbl (start + csize)) (int (length txt))))])
      else Some chunks)"

declare fixed_loop.simps [code]

definition generateFixedSizeChunks ::
  "(nat \<Rightarrow> int) \<Rightarrow> ustring \<Rightarrow> ChunkingConfig \<Rightarrow> Chunk list option" where
  "generateFixedSizeChunks clock txt config =
     (if chunkSize config \<le> 0 then Some []
      else
        let effectiveOverlap = min (chunkOverlap config) (dbl (chunkSize config - 1));
            step = dbl (chunkSize config - effectiveOverlap)
        in fixed_loop clock txt (chunkSize config) step 0 0 [])"

section \<open>generateRecursiveChunks\<close>

text \<open>
  Phase A, the closure \<open>recurse\<close>, pushes raw segments onto the array \<open>rawSegments\<close>;
  the model passes the array through. Its hard split is the loop
  \<^verbatim>\<open>for (let i = 0; i < txt.length; i += (chunkSize - chunkOverlap))
    rawSegments.push(txt.slice(i, i + chunkSize));\<close>
  which, like the loop of the fixed-size chunker, is a partial function.
\<close>

partial_function (option) hard_split ::
  "ustring \<Rightarrow> int \<Rightarrow> int \<Rightarrow> int \<Rightarrow> ustring list \<Rightarrow> ustring list option"
where
  "hard_split txt csize overlap i rawSegments =
     (if i < int (length txt)
      then hard_split txt csize overlap (i + (csize - overlap))
             (rawSegments @ [js_slice txt i (i + csize)])
      else Some rawSegments)"

declare hard_split.simps [code]

text \<open>
  \<open>partsWithSep sep parts\<close> lists the value of \<open>partWithSep\<close> for every part, in
  order: the separator is added back to every part but the last
  (\<open>if (idx < parts.length - 1) partWithSep += sep\<close>).
\<close>

fun partsWithSep :: "ustring \<Rightarrow> ustring list \<Rightarrow> ustring list" where
  "partsWithSep sep [] = []"
| "partsWithSep sep [part] = [part]"
| "partsWithSep sep (part # rest) = (part @ sep) # partsWithSep sep rest"

text \<open>
  \<open>recurse\<close>, and \<open>recurse_each\<close> for the body of its \<open>parts.forEach\<close>, which calls
  \<open>recurse\<close> on every part with the remaining separators.
\<close>

fun recurse ::
  "int \<Rightarrow> int \<Rightarrow> ustring \<Rightarrow> ustring list \<Rightarrow> ustring list \<Rightarrow> ustring list option"
and recurse_each ::
  "int \<Rightarrow> int \<Rightarrow> ustring list \<Rightarrow> ustring list \<Rightarrow> ustring list \<Rightarrow> ustring list option"
where
  "recurse csize overlap txt [] rawSegments =
     (if int (length txt) \<le> csize then Some (rawSegments @ [txt])
      else hard_split txt csize overlap 0 rawSegments)"
| "recurse csize overlap txt (sep # nextSeps) rawSegments =
     (if int (length txt) \<le> csize then Some (rawSegments @ [txt])
      else if js_includes txt sep
      then recurse_each csize overlap (partsWithSep sep (js_split txt sep)) nextSeps rawSegments
      else recurse csize overlap txt nextSeps rawSegments)"
| "recurse_each csize overlap [] nextSeps rawSegments = Some rawSegments"
| "recurse_each csize overlap (p # ps) nextSeps rawSegments =
     (case recurse csize overlap p nextSeps rawSegments of
        None \<Rightarrow> None
      | Some rawSegments' \<Rightarrow> recurse_each csize overlap ps nextSeps rawSegments')"

text \<open>
  Phase B, the loop \<open>for (const segment of rawSegments)\<close> over the state
  \<open>(chunks, currentUnit)\<close>.
\<close>

fun repack ::
  "int \<Rightarrow> int \<Rightarrow> ustring list \<Rightarrow> ustring list \<Rightarrow> ustring \<Rightarrow> ustring list \<times> ustring"
where
  "repack csize overlap [] chunks currentUnit = (chunks, currentUnit)"
| "repack csize overlap (segment # rest) chunks currentUnit =
     (if int (length currentUnit) + int (length segment) > csize \<and> length currentUnit > 0
      then
        let overlapStart = max 0 (int (length currentUnit) - overlap)
        in repack csize overlap rest (chunks @ [currentUnit])
             (js_slice_from currentUnit overlapStart @ segment)
      else repack csize overlap rest chunks (currentUnit @ segment))"

text \<open>
  The strings of \<open>chunks\<close> when both phases are done (up to the line
  \<open>if (currentUnit.length > 0) chunks.push(currentUnit)\<close>), before the filter.
\<close>

definition packedChunks :: "ustring \<Rightarrow> ChunkingConfig \<Rightarrow> ustring list option" where
  "packedChunks txt config =
     (case recurse (chunkSize config) (chunkOverlap config) txt (separators config) [] of
        None \<Rightarrow> None
      | Some rawSegments \<Rightarrow>
          (case repack (chunkSize config) (chunkOverlap config) rawSegments [] [] of
             (chunks, currentUnit) \<Rightarrow>
               Some (if length currentUnit > 0 then chunks @ [currentUnit] else chunks)))"

text \<open>
  The result: \<open>chunks.filter(c => c.trim().length > 0).map((c, i) => ...)\<close>; the
  \<open>i\<close>-th record is built at the \<open>i\<close>-th reading of the clock.
\<close>

definition generateRecursiveChunks ::
  "(nat \<Rightarrow> int) \<Rightarrow> ustring \<Rightarrow> ChunkingConfig \<Rightarrow> Chunk list option" where
  "generateRecursiveChunks clock txt config =
     (case packedChunks txt config of
        None \<Rightarrow> None
      | Some chunks \<Rightarrow>
          Some (map (\<lambda>(i, c). mkChunk (ascii ''rec-chunk-'') i (clock i) c)
                  (enumerate 0 (filter (\<lambda>c. length (js_trim c) > 0) chunks))))"

section \<open>generateMarkdownChunks\<close>

definition generateMarkdownChunks ::
  "(nat \<Rightarrow> int) \<Rightarrow> ustring \<Rightarrow> ChunkingConfig \<Rightarrow> Chunk list option" where
  "generateMarkdownChunks clock txt config = generateRecursiveChunks clock txt config"

section \<open>generateJsonChunks\<close>

text \<open>
  The values \<open>JSON.parse\<close> returns. The entries of an object are listed in the order of
  \<open>Object.entries\<close>. \<open>JSON.parse\<close> and \<open>JSON.stringify(value, null, 2)\<close> are built-ins
  of the platform, not code of the repository: the chunker takes them as the parameters
  \<open>parse\<close> (\<open>None\<close> when \<open>JSON.parse\<close> throws) and \<open>stringify\<close>.
\<close>

datatype json =
  JNull
| JBool bool
| JNumber real
| JString ustring
| JArray "json list"
| JObject "(ustring \<times> json) list"

text \<open>
  The state of one invocation: the array \<open>chunks\<close>, the counter \<open>index\<close>, and the
  number of readings of the clock so far.
\<close>

record JsonState =
  emitted :: "Chunk list"
  nextIndex :: nat
  clockReads :: nat

definition addChunk :: "(nat \<Rightarrow> int) \<Rightarrow> JsonState \<Rightarrow> ustring \<Rightarrow> JsonState" where
  "addChunk clock st c =
     \<lparr> emitted = emitted st @
         [mkChunk (ascii ''json-chunk-'') (nextIndex st) (clock (clockReads st)) c],
       nextIndex = nextIndex st + 1,
       clockReads = clockReads st + 1 \<rparr>"

text \<open>The loop over the items of an array, with \<open>currentBatch\<close> and \<open>currentSize\<close>.\<close>

fun array_loop ::
  "(json \<Rightarrow> ustring) \<Rightarrow> (nat \<Rightarrow> int) \<Rightarrow> int \<Rightarrow> json list \<Rightarrow> JsonState \<Rightarrow> json list \<Rightarrow> int
    \<Rightarrow> JsonState \<times> json list"
where
  "array_loop stringify clock csize [] st currentBatch currentSize = (st, currentBatch)"
| "array_loop stringify clock csize (item # rest) st currentBatch currentSize =
     (let itemStr = stringify item in
      if currentSize + int (length itemStr) + 2 > csize \<and> length currentBatch > 0
      then array_loop stringify clock csize rest
             (addChunk clock st (stringify (JArray currentBatch)))
             [item] (0 + int (length itemStr) + 2)
      else array_loop stringify clock csize rest st
             (currentBatch @ [item]) (currentSize + int (length itemStr) + 2))"

text \<open>
  The loop over the entries of an object. \<open>propStr\<close> is the template
  \<^verbatim>\<open>`"${k}": ${JSON.stringify(v, null, 2)}`\<close>. The assignment \<open>currentObj[k] = v\<close> adds
  the property \<open>k\<close> to \<open>currentObj\<close> (or replaces its value), except for the key
  \<open>__proto__\<close>, where it runs the setter of \<open>Object.prototype\<close> and adds no property.
\<close>

definition propStr :: "(json \<Rightarrow> ustring) \<Rightarrow> ustring \<Rightarrow> json \<Rightarrow> ustring" where
  "propStr stringify k v = ascii ''\"'' @ k @ ascii ''\": '' @ stringify v"

fun assign :: "(ustring \<times> json) list \<Rightarrow> ustring \<Rightarrow> json \<Rightarrow> (ustring \<times> json) list" where
  "assign [] k v = (if k = ascii ''__proto__'' then [] else [(k, v)])"
| "assign ((k', v') # obj) k v =
     (if k = ascii ''__proto__'' then (k', v') # obj
      else if k' = k then (k, v) # obj
      else (k', v') # assign obj k v)"

fun object_loop ::
  "(json \<Rightarrow> ustring) \<Rightarrow> (nat \<Rightarrow> int) \<Rightarrow> int \<Rightarrow> (ustring \<times> json) list \<Rightarrow> JsonState
    \<Rightarrow> (ustring \<times> json) list \<Rightarrow> int \<Rightarrow> JsonState \<times> (ustring \<times> json) list"
where
  "object_loop stringify clock csize [] st currentObj currentSize = (st, currentObj)"
| "object_loop stringify clock csize ((k, v) # rest) st currentObj currentSize =
     (let p = propStr stringify k v in
      if currentSize + int (length p) + 2 > csize \<and> length currentObj > 0
      then object_loop stringify clock csize rest
             (addChunk clock st (stringify (JObject currentObj)))
             (assign [] k v) (2 + int (length p) + 2)
      else object_loop stringify clock csize rest st
             (assign currentObj k v) (currentSize + int (length p) + 2))"

text \<open>
  \<open>processValue\<close>. In its last branch \<open>generateRecursiveChunks\<close> builds its records
  first, reading the clock once for each, and \<open>addChunk\<close> then wraps their contents.
\<close>

definition processValue ::
  "(json \<Rightarrow> ustring) \<Rightarrow> (nat \<Rightarrow> int) \<Rightarrow> ChunkingConfig \<Rightarrow> json \<Rightarrow> JsonState \<Rightarrow> JsonState option"
where
  "processValue stringify clock config v st =
     (let jsonStr = stringify v in
      if int (length jsonStr) \<le> chunkSize config then Some (addChunk clock st jsonStr)
      else
        case v of
          JArray items \<Rightarrow>
            (case array_loop stringify clock (chunkSize config) items st [] 0 of
               (st', currentBatch) \<Rightarrow>
                 Some (if length currentBatch > 0
                       then addChunk clock st' (stringify (JArray currentBatch)) else st'))
        | JObject entries \<Rightarrow>
            (case object_loop stringify clock (chunkSize config) entries st [] 2 of
               (st', currentObj) \<Rightarrow>
                 Some (if length currentObj > 0
                       then addChunk clock st' (stringify (JObject currentObj)) else st'))
        | _ \<Rightarrow>
            (case generateRecursiveChunks (\<lambda>k. clock (clockReads st + k)) jsonStr config of
               None \<Rightarrow> None
             | Some recursiveChunks \<Rightarrow>
                 Some (fold (\<lambda>c s. addChunk clock s (content c)) recursiveChunks
                         (st\<lparr>clockReads := clockReads st + length recursiveChunks\<rparr>))))"

definition generateJsonChunks ::
  "(ustring \<Rightarrow> json option) \<Rightarrow> (json \<Rightarrow> ustring) \<Rightarrow> (nat \<Rightarrow> int) \<Rightarrow> ustring \<Rightarrow> ChunkingConfig
    \<Rightarrow> Chunk list option"
where
  "generateJsonChunks parse stringify clock txt config =
     (case parse txt of
        None \<Rightarrow> generateRecursiveChunks clock txt config
      | Some data \<Rightarrow>
          map_option emitted
            (processValue stringify clock config data
               \<lparr> emitted = [], nextIndex = 0, clockReads = 0 \<rparr>))"

section \<open>generateSemanticChunks\<close>

text \<open>
  The remote call is outside the model; what the function does with the strings it gets
  back is \<open>rawChunks.map((content, index) => ...)\<close>.
\<close>

definition semanticChunkRecords :: "(nat \<Rightarrow> int) \<Rightarrow> ustring list \<Rightarrow> Chunk list" where
  "semanticChunkRecords clock rawChunks =
     map (\<lambda>(i, c). mkChunk (ascii ''sem-chunk-'') i (clock i) c) (enumerate 0 rawChunks)"

section \<open>Notions the properties are stated with\<close>

text \<open>
  Putting chunks back together as the specification describes it: the content of the
  first chunk, then every later chunk without its first \<open>k\<close> code units.
\<close>

fun reassemble :: "nat \<Rightarrow> Chunk list \<Rightarrow> ustring" where
  "reassemble k [] = []"
| "reassemble k (c # rest) = content c @ concat (map (\<lambda>d. drop k (content d)) rest)"




text \<open>A chunk without its identifier, to compare the other fields of two chunks.\<close>

definition forget_id :: "Chunk \<Rightarrow> Chunk" where
  "forget_id c = c\<lparr> id' := [] \<rparr>"

text \<open>
  The number of Unicode code points of a string, in the words of the specification: a
  high surrogate followed by a low surrogate is one code point, every other code unit is
  one.
\<close>

fun codepoint_count :: "ustring \<Rightarrow> nat" where
  "codepoint_count [] = 0"
| "codepoint_count [c] = 1"
| "codepoint_count (c # d # rest) =
     (if 0xD800 \<le> c \<and> c \<le> 0xDBFF \<and> 0xDC00 \<le> d \<and> d \<le> 0xDFFF
      then 1 + codepoint_count rest
      else 1 + codepoint_count (d # rest))"

text \<open>Two states of the JSON chunker that differ at most in the identifiers and the clock.\<close>

definition same_but_ids :: "JsonState \<Rightarrow> JsonState \<Rightarrow> bool" where
  "same_but_ids st1 st2 \<longleftrightarrow>
     map forget_id (emitted st1) = map forget_id (emitted st2) \<and> nextIndex st1 = nextIndex st2"

text \<open>
  The values of \<open>JSON.parse\<close> and of \<open>JSON.stringify(value, null, 2)\<close> at the inputs of
  the examples below: the text \<open>[1,2]\<close> parses to the array of 1 and 2, every other text
  of the examples is not JSON; an array is printed with one element on a line, indented by
  two spaces.
\<close>

definition example_parse :: "ustring \<Rightarrow> json option" where
  "example_parse t =
     (if t = ascii ''[1,2]'' then Some (JArray [JNumber 1, JNumber 2]) else None)"

definition example_stringify :: "json \<Rightarrow> ustring" where
  "example_stringify v =
     (if v = JNumber 1 then ascii ''1''
      else if v = JNumber 2 then ascii ''2''
      else if v = JArray [JNumber 1] then [0x5B, 0x0A, 0x20, 0x20, 0x31, 0x0A, 0x5D]
      else if v = JArray [JNumber 2] then [0x5B, 0x0A, 0x20, 0x20, 0x32, 0x0A, 0x5D]
      else if v = JArray [JNumber 1, JNumber 2]
        then [0x5B, 0x0A, 0x20, 0x20, 0x31, 0x2C, 0x0A, 0x20, 0x20, 0x32, 0x0A, 0x5D]
      else [])"

section \<open>Properties of estimateTokenCount\<close>

lemma other_count: "int (length txt) - int (length (filter cjkRegex txt)) = int (length (filter (\<lambda>c. \<not> cjkRegex c) txt))"
  using sum_length_filter_compl [of cjkRegex "txt"] by simp

text \<open>
  C4. For every string, \<open>estimateTokenCount\<close> is the number of code units in the CJK
  ranges plus the ceiling of a quarter of the number of the other code units; it is never
  negative; the empty string gives 0, the two CJK characters U+6D4B U+8BD5 give 2, and
  \<open>abcd\<close> and \<open>abc\<close> give 1 each.
\<close>

theorem estimateTokenCount_formula:
  "estimateTokenCount txt =
     int (length (filter cjkRegex txt)) + \<lceil>real (length (filter (\<lambda>c. \<not> cjkRegex c) txt)) / 4\<rceil>
   \<and> 0 \<le> estimateTokenCount txt
   \<and> estimateTokenCount [] = 0
   \<and> estimateTokenCount [0x6D4B, 0x8BD5] = 2
   \<and> estimateTokenCount (ascii ''abcd'') = 1
   \<and> estimateTokenCount (ascii ''abc'') = 1"
proof -
  have formula: "estimateTokenCount txt =
     int (length (filter cjkRegex txt)) + \<lceil>real (length (filter (\<lambda>c. \<not> cjkRegex c) txt)) / 4\<rceil>"
    by (simp add: estimateTokenCount_def Let_def other_count)
  have "(0::int) \<le> \<lceil>real (length (filter (\<lambda>c. \<not> cjkRegex c) txt)) / 4\<rceil>"
    by simp
  with formula have nonneg: "0 \<le> estimateTokenCount txt" by simp
  have e0: "estimateTokenCount [] = 0"
    by (simp add: estimateTokenCount_def)
  have e1: "estimateTokenCount [0x6D4B, 0x8BD5] = 2"
    by (simp add: estimateTokenCount_def cjkRegex_def)
  have e2: "estimateTokenCount (ascii ''abcd'') = 1"
    by (simp add: estimateTokenCount_def cjkRegex_def ascii_def)
  have e3: "estimateTokenCount (ascii ''abc'') = 1"
    by (simp add: estimateTokenCount_def cjkRegex_def ascii_def)
  from formula nonneg e0 e1 e2 e3 show ?thesis by blast
qed

section \<open>Rounding to a double\<close>

lemma dbl_exact: "\<bar>n\<bar> \<le> 2 ^ 53 \<Longrightarrow> dbl n = n"
  by (simp add: dbl_def)

lemma dbl_beyond:
  assumes "2 ^ 53 \<le> n"
  shows "2 ^ 53 \<le> dbl n"
proof (cases "n \<le> 2 ^ 53")
  case True
  with assms show ?thesis by (simp add: dbl_def)
next
  case False
  then have big: "2 ^ 53 < n" by simp
  then have pos: "0 < n" by simp
  define e where "e = nat (bitlen n - 53)"
  define q where "q = n div 2 ^ e"
  define r where "r = n mod 2 ^ e"
  define q' where "q' = (if 2 * r > 2 ^ e \<or> (2 * r = 2 ^ e \<and> odd q) then q + 1 else q)"
  from bitlen_bounds [OF pos] have lo: "2 ^ nat (bitlen n - 1) \<le> n" and hi: "n < 2 ^ nat (bitlen n)"
    by simp_all
  have "54 \<le> bitlen n"
  proof (rule ccontr)
    assume "\<not> 54 \<le> bitlen n"
    then have "nat (bitlen n) \<le> 53" by simp
    then have "(2::int) ^ nat (bitlen n) \<le> 2 ^ 53"
      by (rule power_increasing) simp
    with hi big show False by simp
  qed
  then have e: "nat (bitlen n - 1) = 52 + e" "1 \<le> e"
    by (simp_all add: e_def)
  have "(2::int) ^ 52 * 2 ^ e \<le> n"
    using lo e(1) by (simp add: power_add)
  then have "(2 ^ 52 * 2 ^ e) div 2 ^ e \<le> n div (2::int) ^ e"
    by (rule zdiv_mono1) simp
  then have "2 ^ 52 \<le> q"
    by (simp add: q_def)
  then have "2 ^ 52 \<le> q'"
    by (simp add: q'_def)
  moreover have "(2::int) ^ 1 \<le> 2 ^ e"
    using e(2) by (intro power_increasing) simp_all
  ultimately have "(2::int) ^ 52 * 2 ^ 1 \<le> q' * 2 ^ e"
    by (intro mult_mono) simp_all
  moreover have "dbl n = q' * 2 ^ e"
    using big pos by (simp add: dbl_def Let_def e_def q_def r_def q'_def)
  ultimately show ?thesis by simp
qed

section \<open>The two loops that may run forever\<close>

text \<open>
  A total-correctness rule for the loop of the fixed-size chunker: with a positive step,
  on a text of at most \<open>2^53\<close> code units (a JavaScript string is shorter), the loop
  returns, and what it appends satisfies every \<open>Q\<close> that holds of the empty list at the
  exit and is kept by one iteration. The rounding of the two sums falls away: a sum
  beyond \<open>2^53\<close> is past the end of the text, rounded or not.
\<close>

text \<open>One turn of each loop, and its exit.\<close>

lemma fixed_loop_step:
  "start < int (length t) \<Longrightarrow>
   fixed_loop clock t csize step start i chunks
   = fixed_loop clock t csize step (dbl (start + step)) (i + 1)
       (chunks @ [mkChunk (ascii ''chunk-'') i (clock i)
                    (js_slice t start (min (dbl (start + csize)) (int (length t))))])"
  by (subst fixed_loop.simps) simp

lemma fixed_loop_stop:
  "\<not> start < int (length t) \<Longrightarrow> fixed_loop clock t csize step start i chunks = Some chunks"
  by (subst fixed_loop.simps) simp

lemma hard_split_step:
  "i < int (length t) \<Longrightarrow>
   hard_split t csize overlap i raw
   = hard_split t csize overlap (i + (csize - overlap)) (raw @ [js_slice t i (i + csize)])"
  by (subst hard_split.simps) simp

lemma hard_split_stop:
  "\<not> i < int (length t) \<Longrightarrow> hard_split t csize overlap i raw = Some raw"
  by (subst hard_split.simps) simp

lemma window_end:
  assumes "0 \<le> start" and "start < len" and "len \<le> 2 ^ 53" and "0 < csize"
  shows "min (dbl (start + csize)) len = min (start + csize) len"
proof (cases "start + csize \<le> 2 ^ 53")
  case True
  with assms have "dbl (start + csize) = start + csize"
    by (intro dbl_exact) simp
  then show ?thesis by simp
next
  case False
  then have "2 ^ 53 \<le> dbl (start + csize)"
    by (intro dbl_beyond) simp
  with False assms show ?thesis by simp
qed

lemma fixed_loop_rule:
  assumes step: "0 < step" and csize: "0 < csize" and short: "int (length t) \<le> 2 ^ 53"
    and base: "\<And>start i. \<not> start < int (length t) \<Longrightarrow> Q start i []"
    and stp: "\<And>start i new. 0 \<le> start \<Longrightarrow> start < int (length t) \<Longrightarrow> Q (start + step) (i + 1) new
                \<Longrightarrow> Q start i (mkChunk (ascii ''chunk-'') i (clock i)
                               (js_slice t start (min (start + csize) (int (length t)))) # new)"
    and start: "0 \<le> start0"
  shows "\<exists>new. fixed_loop clock t csize step start0 i0 chunks = Some (chunks @ new) \<and> Q start0 i0 new"
  using start
proof (induction "nat (int (length t) - start0)" arbitrary: start0 i0 chunks rule: less_induct)
  case less
  show ?case
  proof (cases "start0 < int (length t)")
    case False
    then show ?thesis
      by (subst fixed_loop.simps) (simp add: base)
  next
    case True
    let ?c = "mkChunk (ascii ''chunk-'') i0 (clock i0)
                (js_slice t start0 (min (start0 + csize) (int (length t))))"
    have unfold: "fixed_loop clock t csize step start0 i0 chunks
          = fixed_loop clock t csize step (dbl (start0 + step)) (i0 + 1) (chunks @ [?c])"
      using True window_end [OF less.prems True short csize]
      by (subst fixed_loop.simps) simp
    show ?thesis
    proof (cases "start0 + step \<le> 2 ^ 53")
      case exact: True
      have next_start: "dbl (start0 + step) = start0 + step"
        using exact less.prems step by (intro dbl_exact) simp
      have "nat (int (length t) - (start0 + step)) < nat (int (length t) - start0)"
        using True step by linarith
      moreover have "0 \<le> start0 + step"
        using less.prems step by linarith
      ultimately obtain new where
        new: "fixed_loop clock t csize step (start0 + step) (i0 + 1) (chunks @ [?c])
              = Some ((chunks @ [?c]) @ new)"
        and q: "Q (start0 + step) (i0 + 1) new"
        using less.hyps by blast
      have "fixed_loop clock t csize step start0 i0 chunks = Some (chunks @ (?c # new))"
        using unfold next_start new by simp
      with stp [OF less.prems True q] show ?thesis
        by blast
    next
      case False
      then have "2 ^ 53 \<le> dbl (start0 + step)"
        by (intro dbl_beyond) simp
      with short have past: "\<not> dbl (start0 + step) < int (length t)"
        by simp
      have "fixed_loop clock t csize step (dbl (start0 + step)) (i0 + 1) (chunks @ [?c])
            = Some (chunks @ [?c])"
        using past by (subst fixed_loop.simps) simp
      with unfold have "fixed_loop clock t csize step start0 i0 chunks = Some (chunks @ [?c])"
        by simp
      moreover have "Q (start0 + step) (i0 + 1) []"
        using False short by (intro base) simp
      ultimately show ?thesis
        using stp [OF less.prems True] by blast
    qed
  qed
qed

text \<open>
  A run of that loop that returns has moved its start at every turn: where the sum
  \<open>start + step\<close> rounds to \<open>start\<close> inside the text, the loop never returns.
\<close>

lemma fixed_loop_returns_moved:
  assumes ret: "fixed_loop clock t csize step start i chunks = Some y"
  shows "\<not> (dbl (start + step) = start \<and> start < int (length t))"
proof (rule fixed_loop.raw_induct
    [where P = "\<lambda>c u a b s k a1 y. \<not> (dbl (s + b) = s \<and> s < int (length u))", OF _ ret])
  fix f :: "(nat \<Rightarrow> int) \<Rightarrow> ustring \<Rightarrow> int \<Rightarrow> int \<Rightarrow> int \<Rightarrow> nat \<Rightarrow> Chunk list \<Rightarrow> Chunk list option"
  fix c u a b s k a1 y
  assume IH: "\<And>c u a b s k a1 y. f c u a b s k a1 = Some y \<Longrightarrow>
                \<not> (dbl (s + b) = s \<and> s < int (length u))"
  assume unfolded:
    "(if s < int (length u)
      then f c u a b (dbl (s + b)) (k + 1)
             (a1 @ [mkChunk (ascii ''chunk-'') k (c k)
                      (js_slice u s (min (dbl (s + a)) (int (length u))))])
      else Some a1) = Some y"
  show "\<not> (dbl (s + b) = s \<and> s < int (length u))"
  proof
    assume stuck: "dbl (s + b) = s \<and> s < int (length u)"
    with unfolded have
      "f c u a b s (k + 1)
         (a1 @ [mkChunk (ascii ''chunk-'') k (c k)
                  (js_slice u s (min (dbl (s + a)) (int (length u))))]) = Some y"
      by simp
    then have "\<not> (dbl (s + b) = s \<and> s < int (length u))"
      by (rule IH)
    with stuck show False by simp
  qed
qed

lemma fixed_loop_stuck:
  "dbl (start + step) = start \<Longrightarrow> start < int (length t) \<Longrightarrow>
   fixed_loop clock t csize step start i chunks = None"
  using fixed_loop_returns_moved [of clock t csize step start i chunks]
  by (cases "fixed_loop clock t csize step start i chunks") auto

text \<open>The same rule for the hard split of \<open>recurse\<close>, whose step is \<open>chunkSize - chunkOverlap\<close>.\<close>

lemma hard_split_rule:
  assumes step: "0 < csize - overlap"
    and base: "\<And>i. \<not> i < int (length txt) \<Longrightarrow> Q i []"
    and stp: "\<And>i new. 0 \<le> i \<Longrightarrow> i < int (length txt) \<Longrightarrow> Q (i + (csize - overlap)) new
                \<Longrightarrow> Q i (js_slice txt i (i + csize) # new)"
    and start: "0 \<le> i0"
  shows "\<exists>new. hard_split txt csize overlap i0 raw = Some (raw @ new) \<and> Q i0 new"
  using start
proof (induction "nat (int (length txt) - i0)" arbitrary: i0 raw rule: less_induct)
  case less
  show ?case
  proof (cases "i0 < int (length txt)")
    case False
    then show ?thesis
      by (subst hard_split.simps) (simp add: base)
  next
    case True
    have "nat (int (length txt) - (i0 + (csize - overlap))) < nat (int (length txt) - i0)"
      using True step by linarith
    moreover have "0 \<le> i0 + (csize - overlap)"
      using less.prems step by linarith
    ultimately obtain new where
      new: "hard_split txt csize overlap (i0 + (csize - overlap))
              (raw @ [js_slice txt i0 (i0 + csize)])
            = Some ((raw @ [js_slice txt i0 (i0 + csize)]) @ new)"
      and q: "Q (i0 + (csize - overlap)) new"
      using less.hyps by blast
    show ?thesis
      using True new stp [OF less.prems True q]
      by (subst hard_split.simps) auto
  qed
qed

text \<open>
  When the hard split returns, its step was positive or its loop was not entered: with
  \<open>chunkSize \<le> chunkOverlap\<close> and a non-empty rest to cut, it never returns.
\<close>

lemma hard_split_Some_step:
  assumes ret: "hard_split t cs ov i raw = Some y"
  shows "\<not> (cs - ov \<le> 0 \<and> i < int (length t))"
proof (rule hard_split.raw_induct
    [where P = "\<lambda>t cs ov i raw y. \<not> (cs - ov \<le> 0 \<and> i < int (length t))", OF _ ret])
  fix hs :: "ustring \<Rightarrow> int \<Rightarrow> int \<Rightarrow> int \<Rightarrow> ustring list \<Rightarrow> ustring list option"
  fix u a b k r z
  assume IH: "\<And>u a b k r z. hs u a b k r = Some z \<Longrightarrow> \<not> (a - b \<le> 0 \<and> k < int (length u))"
  assume unfolded:
    "(if k < int (length u) then hs u a b (k + (a - b)) (r @ [js_slice u k (k + a)]) else Some r)
     = Some z"
  show "\<not> (a - b \<le> 0 \<and> k < int (length u))"
  proof
    assume stuck: "a - b \<le> 0 \<and> k < int (length u)"
    with unfolded have "hs u a b (k + (a - b)) (r @ [js_slice u k (k + a)]) = Some z"
      by simp
    then have "\<not> (a - b \<le> 0 \<and> k + (a - b) < int (length u))"
      by (rule IH)
    with stuck show False by linarith
  qed
qed

lemma hard_split_diverges:
  "csize - overlap \<le> 0 \<Longrightarrow> i < int (length t) \<Longrightarrow> hard_split t csize overlap i raw = None"
  using hard_split_Some_step [of t csize overlap i raw]
  by (cases "hard_split t csize overlap i raw") auto

section \<open>The fields of a chunk record\<close>

lemma content_mkChunk [simp]: "content (mkChunk tag i now c) = c"
  by (simp add: mkChunk_def)

lemma length_mkChunk [simp]: "length' (mkChunk tag i now c) = length c"
  by (simp add: mkChunk_def)

lemma index_mkChunk [simp]: "index (mkChunk tag i now c) = i"
  by (simp add: mkChunk_def)

lemma tokenCount_mkChunk [simp]: "tokenCount (mkChunk tag i now c) = estimateTokenCount c"
  by (simp add: mkChunk_def)

lemma forget_id_mkChunk: "forget_id (mkChunk tag i now c) = forget_id (mkChunk tag i now' c)"
  by (simp add: forget_id_def mkChunk_def)

lemma content_forget_id [simp]: "content (forget_id c) = content c"
  by (simp add: forget_id_def)

section \<open>The empty input\<close>

lemma recurse_empty_text:
  "recurse csize overlap [] seps raw = Some raw \<or> recurse csize overlap [] seps raw = Some (raw @ [[]])"
proof (induction seps)
  case Nil
  show ?case
    by (simp add: hard_split.simps)
next
  case (Cons sep nextSeps)
  then show ?case
    by (cases "sep = []") (auto simp: js_split_def)
qed

lemma packedChunks_empty_text: "packedChunks [] config = Some []"
  using recurse_empty_text [of "chunkSize config" "chunkOverlap config" "separators config" "[]"]
  by (auto simp: packedChunks_def)

text \<open>
  C10. For the empty string and every configuration, \<open>generateFixedSizeChunks\<close> and
  \<open>generateRecursiveChunks\<close> both return, and return no chunk.
\<close>

theorem empty_input_no_chunks:
  "generateFixedSizeChunks clock [] config = Some []
   \<and> generateRecursiveChunks clock [] config = Some []"
proof
  show "generateFixedSizeChunks clock [] config = Some []"
    by (simp add: generateFixedSizeChunks_def Let_def fixed_loop_stop)
  show "generateRecursiveChunks clock [] config = Some []"
    by (simp add: generateRecursiveChunks_def packedChunks_empty_text)
qed

section \<open>Termination of generateRecursiveChunks\<close>

text \<open>
  C1. The hard split of \<open>recurse\<close> steps by \<open>chunkSize - chunkOverlap\<close> with no lower
  bound: on the text \<open>abc\<close> with \<open>chunkSize = 2\<close>, \<open>chunkOverlap = 2\<close> and no separator
  the step is 0 and \<open>generateRecursiveChunks\<close> never returns.
\<close>

theorem recursive_hard_split_never_returns:
  "generateRecursiveChunks int (ascii ''abc'')
     \<lparr> chunkSize = 2, chunkOverlap = 2, separators = [] \<rparr> = None"
proof -
  have "hard_split (ascii ''abc'') 2 2 0 [] = None"
    by (rule hard_split_diverges) (simp_all add: ascii_def)
  then show ?thesis
    by (simp add: generateRecursiveChunks_def packedChunks_def ascii_def)
qed

text \<open>With \<open>chunkOverlap < chunkSize\<close> the step is positive and the chunker returns.\<close>

lemma recurse_returns:
  "overlap < csize \<Longrightarrow> recurse csize overlap t seps raw \<noteq> None"
  "overlap < csize \<Longrightarrow> recurse_each csize overlap ps nextSeps raw \<noteq> None"
proof (induction csize overlap t seps raw and csize overlap ps nextSeps raw
    rule: recurse_recurse_each.induct)
  case (1 csize overlap t raw)
  then have step: "0 < csize - overlap" by simp
  have "\<exists>new. hard_split t csize overlap 0 raw = Some (raw @ new) \<and> True"
    by (rule hard_split_rule [where Q = "\<lambda>i new. True", OF step]) simp_all
  then show ?case by auto
next
  case (2 csize overlap t sep nextSeps raw)
  show ?case
  proof (cases "int (length t) \<le> csize")
    case True
    then show ?thesis by simp
  next
    case False
    show ?thesis
    proof (cases "js_includes t sep")
      case True
      with False "2.IH"(1) "2.prems" show ?thesis by simp
    next
      case no: False
      with False "2.IH"(2) "2.prems" show ?thesis by simp
    qed
  qed
next
  case (3 csize overlap nextSeps raw)
  show ?case by simp
next
  case (4 csize overlap p ps nextSeps raw)
  show ?case
  proof (cases "recurse csize overlap p nextSeps raw")
    case None
    with "4.IH"(1) "4.prems" show ?thesis by simp
  next
    case (Some raw')
    with "4.IH"(2) "4.prems" show ?thesis by simp
  qed
qed

lemma generateRecursiveChunks_returns:
  "chunkOverlap config < chunkSize config \<Longrightarrow> generateRecursiveChunks clock t config \<noteq> None"
  using recurse_returns(1) [of "chunkOverlap config" "chunkSize config" t "separators config" "[]"]
  by (auto simp: generateRecursiveChunks_def packedChunks_def split: prod.splits)

section \<open>The recursive chunker covers the text\<close>

























section \<open>The fixed-size chunker covers the text\<close>

lemma js_slice_window:
  "0 \<le> start \<Longrightarrow> start < int (length t) \<Longrightarrow> 0 < csize \<Longrightarrow>
   js_slice t start (min (start + csize) (int (length t))) = take (nat csize) (drop (nat start) t)"
  by (auto simp: js_slice_def Let_def min_def)

lemma fixed_loop_overlap_free:
  assumes "0 < csize" "0 \<le> eo" "eo < csize" and short: "int (length t) \<le> 2 ^ 53"
  shows "\<exists>new. fixed_loop clock t csize (csize - eo) 0 0 [] = Some new
           \<and> concat (map (\<lambda>d. drop (nat eo) (content d)) new) = drop (nat eo) t
           \<and> (new = [] \<longleftrightarrow> t = [])
           \<and> (new \<noteq> [] \<longrightarrow> content (hd new) = take (nat csize) t)"
proof -
  let ?Q = "\<lambda>start (i::nat) (new::Chunk list).
      concat (map (\<lambda>d. drop (nat eo) (content d)) new) = drop (nat start + nat eo) t
      \<and> (new = [] \<longleftrightarrow> \<not> start < int (length t))
      \<and> (new \<noteq> [] \<longrightarrow> content (hd new) = take (nat csize) (drop (nat start) t))"
  have "\<exists>new. fixed_loop clock t csize (csize - eo) 0 0 [] = Some ([] @ new) \<and> ?Q 0 0 new"
  proof (rule fixed_loop_rule)
    show "0 < csize - eo" using assms by simp
  next
    fix start :: int and i :: nat
    assume "\<not> start < int (length t)"
    then show "?Q start i []" by simp
  next
    fix start :: int and i :: nat and new :: "Chunk list"
    assume s0: "0 \<le> start" and s1: "start < int (length t)"
      and q: "?Q (start + (csize - eo)) (i + 1) new"
    let ?c = "mkChunk (ascii ''chunk-'') i (clock i)
                (js_slice t start (min (start + csize) (int (length t))))"
    have c: "content ?c = take (nat csize) (drop (nat start) t)"
      using s0 s1 assms by (simp add: js_slice_window)
    have n1: "nat (start + (csize - eo)) + nat eo = nat start + nat csize"
      using s0 assms by linarith
    define xs where "xs = drop (nat start + nat eo) t"
    define n where "n = nat csize - nat eo"
    have a: "drop (nat eo) (content ?c) = take n xs"
      unfolding c xs_def n_def by (simp add: drop_take add.commute)
    have "n + (nat start + nat eo) = nat start + nat csize"
      unfolding n_def using assms by linarith
    then have b: "drop (nat start + nat csize) t = drop n xs"
      unfolding xs_def by (simp only: drop_drop)
    have "drop (nat eo) (content ?c) @ drop (nat start + nat csize) t
          = drop (nat start + nat eo) t"
      unfolding a b by (simp only: append_take_drop_id xs_def)
    with q n1 c show "?Q start i (?c # new)"
      using s1 by simp
  qed (use assms in simp_all)
  then show ?thesis
    by auto
qed

text \<open>
  C3, as the code has it. For \<open>0 < chunkSize \<le> 2^53\<close> and \<open>chunkOverlap \<ge> 0\<close>, on a
  text of at most \<open>2^53\<close> code units, the chunker returns, and the content of the first
  chunk followed by every later chunk without its first
  \<open>min(chunkOverlap, chunkSize - 1)\<close> code units is the text. (The chunker clamps the
  overlap to \<open>chunkSize - 1\<close>; for \<open>chunkOverlap < chunkSize\<close> the number of code units
  to drop is \<open>chunkOverlap\<close>. Up to \<open>2^53\<close> the double \<open>chunkSize - 1\<close> is exact.)
\<close>

theorem fixed_round_trip:
  assumes "0 < chunkSize config" and "chunkSize config \<le> 2 ^ 53"
    and "0 \<le> chunkOverlap config" and "int (length t) \<le> 2 ^ 53"
  shows "map_option (reassemble (nat (min (chunkOverlap config) (chunkSize config - 1))))
           (generateFixedSizeChunks clock t config) = Some t"
proof -
  let ?eo = "min (chunkOverlap config) (chunkSize config - 1)"
  have eo: "0 \<le> ?eo" "?eo < chunkSize config"
    using assms by simp_all
  have less1: "dbl (chunkSize config - 1) = chunkSize config - 1"
    using assms by (intro dbl_exact) simp
  have step: "dbl (chunkSize config - ?eo) = chunkSize config - ?eo"
    using assms eo by (intro dbl_exact) simp
  from fixed_loop_overlap_free [OF assms(1) eo assms(4), of clock]
  obtain new where
    run: "fixed_loop clock t (chunkSize config) (chunkSize config - ?eo) 0 0 [] = Some new"
    and rest: "concat (map (\<lambda>d. drop (nat ?eo) (content d)) new) = drop (nat ?eo) t"
    and emp: "new = [] \<longleftrightarrow> t = []"
    and first: "new \<noteq> [] \<longrightarrow> content (hd new) = take (nat (chunkSize config)) t"
    by blast
  have "reassemble (nat ?eo) new = t"
  proof (cases new)
    case Nil
    with emp show ?thesis by simp
  next
    case (Cons c more)
    with first have c: "content c = take (nat (chunkSize config)) t" by simp
    from rest Cons have
      "drop (nat ?eo) (content c) @ concat (map (\<lambda>d. drop (nat ?eo) (content d)) more)
       = drop (nat ?eo) t"
      by simp
    moreover have "take (nat ?eo) (content c) = take (nat ?eo) t"
      using c eo by (simp add: min_absorb2 nat_le_eq_zle)
    ultimately have
      "take (nat ?eo) (content c) @ drop (nat ?eo) (content c)
         @ concat (map (\<lambda>d. drop (nat ?eo) (content d)) more) = t"
      by simp
    moreover have "reassemble (nat ?eo) new
        = (take (nat ?eo) (content c) @ drop (nat ?eo) (content c))
            @ concat (map (\<lambda>d. drop (nat ?eo) (content d)) more)"
      using Cons by simp
    ultimately show ?thesis
      by (simp only: append_assoc)
  qed
  with run show ?thesis
    using assms by (simp add: generateFixedSizeChunks_def Let_def less1 step)
qed

text \<open>
  The text of 15 letters of the specification's scenario, \<open>chunkSize = 5\<close> and
  \<open>chunkOverlap = 2\<close>.
\<close>

theorem fixed_round_trip_witness:
  "0 < chunkSize \<lparr> chunkSize = 5, chunkOverlap = 2, separators = [] \<rparr>
   \<and> chunkSize \<lparr> chunkSize = 5, chunkOverlap = 2, separators = [] \<rparr> \<le> 2 ^ 53
   \<and> 0 \<le> chunkOverlap \<lparr> chunkSize = 5, chunkOverlap = 2, separators = [] \<rparr>
   \<and> int (length (ascii ''AAAAABBBBBCCCCC'')) \<le> 2 ^ 53
   \<and> map_option (reassemble 2)
         (generateFixedSizeChunks int (ascii ''AAAAABBBBBCCCCC'')
            \<lparr> chunkSize = 5, chunkOverlap = 2, separators = [] \<rparr>)
       = Some (ascii ''AAAAABBBBBCCCCC'')"
  using fixed_round_trip
    [of "\<lparr> chunkSize = 5, chunkOverlap = 2, separators = [] \<rparr>" "ascii ''AAAAABBBBBCCCCC''" int]
  by (simp add: ascii_def)

text \<open>
  With \<open>chunkOverlap \<ge> chunkSize\<close>, dropping \<open>chunkOverlap\<close> code units of every chunk
  after the first loses text: \<open>abc\<close> with \<open>chunkSize = 2\<close> and \<open>chunkOverlap = 2\<close> is
  cut into \<open>ab\<close>, \<open>bc\<close>, \<open>c\<close>, which are put back together as \<open>ab\<close>.
\<close>

theorem fixed_round_trip_overlap_counterexample:
  "map_option (reassemble 2)
     (generateFixedSizeChunks int (ascii ''abc'')
        \<lparr> chunkSize = 2, chunkOverlap = 2, separators = [] \<rparr>)
   = Some (ascii ''ab'')
   \<and> ascii ''ab'' \<noteq> ascii ''abc''"
  by (simp add: generateFixedSizeChunks_def fixed_loop_step fixed_loop_stop dbl_exact
      js_slice_def ascii_def)

text \<open>
  Beyond \<open>2^53\<close> the differences are rounded. With
  \<open>chunkSize = chunkOverlap = 2^53 + 2\<close> the double \<open>chunkSize - 1\<close> is \<open>2^53\<close>, the
  step is 2, and \<open>abc\<close> is cut into \<open>abc\<close> and \<open>c\<close>. With
  \<open>chunkSize = chunkOverlap = 2^53 + 4\<close> the double \<open>chunkSize - 1\<close> is \<open>chunkSize\<close>,
  the step is 0, and the chunker never returns on a text that is not empty.
\<close>

theorem fixed_chunker_rounds_like_doubles:
  "map_option (map content)
     (generateFixedSizeChunks int (ascii ''abc'')
        \<lparr> chunkSize = 9007199254740994, chunkOverlap = 9007199254740994, separators = [] \<rparr>)
   = Some [ascii ''abc'', ascii ''c'']
   \<and> generateFixedSizeChunks int (ascii ''a'')
        \<lparr> chunkSize = 9007199254740996, chunkOverlap = 9007199254740996, separators = [] \<rparr>
     = None"
proof
  have r1: "dbl 9007199254740993 = 9007199254740992"
    by (simp add: dbl_def compute_bitlen Let_def)
  have r2: "dbl 9007199254740996 = 9007199254740996"
    by (simp add: dbl_def compute_bitlen Let_def)
  have r0: "dbl 9007199254740994 = 9007199254740994"
    by (simp add: dbl_def compute_bitlen Let_def)
  show "map_option (map content)
     (generateFixedSizeChunks int (ascii ''abc'')
        \<lparr> chunkSize = 9007199254740994, chunkOverlap = 9007199254740994, separators = [] \<rparr>)
   = Some [ascii ''abc'', ascii ''c'']"
    by (simp add: generateFixedSizeChunks_def r0 r1 r2 fixed_loop_step fixed_loop_stop dbl_exact
        js_slice_def ascii_def)
next
  have r3: "dbl 9007199254740995 = 9007199254740996"
    by (simp add: dbl_def compute_bitlen Let_def)
  have "fixed_loop int (ascii ''a'') 9007199254740996 0 0 0 [] = None"
    by (rule fixed_loop_stuck) (simp_all add: dbl_exact ascii_def)
  then show "generateFixedSizeChunks int (ascii ''a'')
        \<lparr> chunkSize = 9007199254740996, chunkOverlap = 9007199254740996, separators = [] \<rparr>
     = None"
    by (simp add: generateFixedSizeChunks_def r3 dbl_exact)
qed

section \<open>The lengths of the fixed-size chunks\<close>

lemma fixed_loop_lengths:
  assumes "0 < csize" and "0 < step" and "int (length t) \<le> 2 ^ 53"
  shows "\<exists>new. fixed_loop clock t csize step 0 0 [] = Some new
           \<and> (\<forall>k. k < length new \<longleftrightarrow> int k * step < int (length t))
           \<and> (\<forall>k < length new.
                 int (length' (new ! k)) = min csize (int (length t) - int k * step))"
proof -
  let ?Q = "\<lambda>start (i::nat) (new::Chunk list).
      (\<forall>k. k < length new \<longleftrightarrow> start + int k * step < int (length t))
      \<and> (\<forall>k < length new.
            int (length' (new ! k)) = min csize (int (length t) - (start + int k * step)))"
  have "\<exists>new. fixed_loop clock t csize step 0 0 [] = Some ([] @ new) \<and> ?Q 0 0 new"
  proof (rule fixed_loop_rule)
    show "0 < step" by fact
  next
    show "0 < csize" by fact
  next
    show "int (length t) \<le> 2 ^ 53" by fact
  next
    fix start :: int and i :: nat
    assume past: "\<not> start < int (length t)"
    have "\<not> start + int k * step < int (length t)" for k
    proof -
      have "0 \<le> int k * step" using assms(2) by simp
      with past show ?thesis by linarith
    qed
    then show "?Q start i []" by simp
  next
    fix start :: int and i :: nat and new :: "Chunk list"
    assume s0: "0 \<le> start" and s1: "start < int (length t)"
      and q: "?Q (start + step) (i + 1) new"
    let ?c = "mkChunk (ascii ''chunk-'') i (clock i)
                (js_slice t start (min (start + csize) (int (length t))))"
    have len: "int (length' ?c) = min csize (int (length t) - start)"
      using s0 s1 assms by (simp add: js_slice_window)
    have shift: "start + step + int j * step = start + int (Suc j) * step" for j
      by (simp add: algebra_simps)
    have count: "k < length (?c # new) \<longleftrightarrow> start + int k * step < int (length t)" for k
    proof (cases k)
      case 0
      with s1 show ?thesis by simp
    next
      case (Suc j)
      have "(Suc j < length (?c # new)) = (j < length new)"
        by simp
      also have "\<dots> = (start + step + int j * step < int (length t))"
        using q by blast
      also have "start + step + int j * step = start + int (Suc j) * step"
        by (rule shift)
      finally show ?thesis
        unfolding Suc .
    qed
    have lens: "int (length' ((?c # new) ! k))
                = min csize (int (length t) - (start + int k * step))"
      if "k < length (?c # new)" for k
    proof (cases k)
      case 0
      with len show ?thesis by simp
    next
      case (Suc j)
      with that have "j < length new" by simp
      with q have "int (length' (new ! j))
                   = min csize (int (length t) - (start + step + int j * step))"
        by blast
      also have "start + step + int j * step = start + int (Suc j) * step"
        by (rule shift)
      finally show ?thesis
        unfolding Suc by simp
    qed
    from count lens show "?Q start i (?c # new)"
      by blast
  qed simp
  then show ?thesis
    by simp
qed

text \<open>
  C5, as the code has it. For \<open>0 < chunkSize \<le> 2^53\<close> and
  \<open>0 \<le> chunkOverlap < chunkSize\<close>, on a text of at most \<open>2^53\<close> code units, the chunker
  returns. With \<open>step = chunkSize - chunkOverlap\<close>, there is a chunk \<open>k\<close> (counted from
  0) exactly when \<open>k * step\<close> is less than the length of the text, and its length is
  \<open>min(chunkSize, length of the text - k * step)\<close>: it is \<open>chunkSize\<close> unless the window
  of the chunk runs past the end of the text. So every chunk has between 1 and
  \<open>chunkSize\<close> code units, and with \<open>chunkOverlap \<le> 1\<close> every chunk but the last has
  \<open>chunkSize\<close>.
\<close>

theorem fixed_chunk_lengths:
  assumes "0 < chunkSize config" and "chunkSize config \<le> 2 ^ 53"
    and "0 \<le> chunkOverlap config" and "chunkOverlap config < chunkSize config"
    and "int (length t) \<le> 2 ^ 53"
  shows "\<exists>chunks. generateFixedSizeChunks clock t config = Some chunks
           \<and> (\<forall>k. k < length chunks \<longleftrightarrow>
                  int k * (chunkSize config - chunkOverlap config) < int (length t))
           \<and> (\<forall>k < length chunks.
                 int (length' (chunks ! k))
                 = min (chunkSize config)
                     (int (length t) - int k * (chunkSize config - chunkOverlap config)))
           \<and> (\<forall>c \<in> set chunks. 1 \<le> length' c \<and> int (length' c) \<le> chunkSize config)
           \<and> (chunkOverlap config \<le> 1 \<longrightarrow>
                (\<forall>k. Suc k < length chunks \<longrightarrow> int (length' (chunks ! k)) = chunkSize config))"
proof -
  let ?step = "chunkSize config - chunkOverlap config"
  have less1: "dbl (chunkSize config - 1) = chunkSize config - 1"
    using assms by (intro dbl_exact) simp
  have eo: "min (chunkOverlap config) (chunkSize config - 1) = chunkOverlap config"
    using assms by simp
  have step: "dbl ?step = ?step"
    using assms by (intro dbl_exact) simp
  have pos: "0 < ?step"
    using assms by simp
  from fixed_loop_lengths [OF assms(1) pos assms(5), of clock]
  obtain chunks where
    run: "fixed_loop clock t (chunkSize config) ?step 0 0 [] = Some chunks"
    and count: "\<And>k. k < length chunks \<longleftrightarrow> int k * ?step < int (length t)"
    and lens: "\<And>k. k < length chunks \<Longrightarrow>
                 int (length' (chunks ! k)) = min (chunkSize config) (int (length t) - int k * ?step)"
    by blast
  have gen: "generateFixedSizeChunks clock t config = Some chunks"
    using assms(1) run by (simp add: generateFixedSizeChunks_def Let_def less1 eo step)
  have bounds: "1 \<le> length' c \<and> int (length' c) \<le> chunkSize config" if "c \<in> set chunks" for c
  proof -
    from that obtain k where k: "k < length chunks" "c = chunks ! k"
      by (auto simp: in_set_conv_nth)
    define d where "d = int (length t) - int k * ?step"
    from k(1) count [of k] have "0 < d"
      by (simp add: d_def)
    moreover from k(1) have "int (length' (chunks ! k)) = min (chunkSize config) d"
      unfolding d_def by (rule lens)
    ultimately have "1 \<le> int (length' (chunks ! k))"
      and "int (length' (chunks ! k)) \<le> chunkSize config"
      using assms(1) by simp_all
    then show ?thesis
      unfolding k(2) by simp
  qed
  have full: "int (length' (chunks ! k)) = chunkSize config"
    if small: "chunkOverlap config \<le> 1" and k: "Suc k < length chunks" for k
  proof -
    from k count [of "Suc k"] have "int (Suc k) * ?step < int (length t)"
      by simp
    moreover have "int (Suc k) * ?step = int k * ?step + ?step"
      by (simp add: algebra_simps)
    ultimately have "int k * ?step + ?step < int (length t)"
      by simp
    with small have "chunkSize config \<le> int (length t) - int k * ?step"
      by linarith
    moreover from k have "k < length chunks" by simp
    then have
      "int (length' (chunks ! k)) = min (chunkSize config) (int (length t) - int k * ?step)"
      by (rule lens)
    ultimately show ?thesis
      by simp
  qed
  from gen count lens bounds full show ?thesis
    by blast
qed

text \<open>
  The scenario of the specification: 15 letters, \<open>chunkSize = 5\<close> and
  \<open>chunkOverlap = 2\<close> give chunks of 5, 5, 5, 5 and 3 code units.
\<close>

theorem fixed_chunk_lengths_witness:
  "0 < chunkSize \<lparr> chunkSize = 5, chunkOverlap = 2, separators = [] \<rparr>
   \<and> chunkSize \<lparr> chunkSize = 5, chunkOverlap = 2, separators = [] \<rparr> \<le> 2 ^ 53
   \<and> 0 \<le> chunkOverlap \<lparr> chunkSize = 5, chunkOverlap = 2, separators = [] \<rparr>
   \<and> chunkOverlap \<lparr> chunkSize = 5, chunkOverlap = 2, separators = [] \<rparr>
       < chunkSize \<lparr> chunkSize = 5, chunkOverlap = 2, separators = [] \<rparr>
   \<and> int (length (ascii ''AAAAABBBBBCCCCC'')) \<le> 2 ^ 53
   \<and> map_option (map length')
         (generateFixedSizeChunks int (ascii ''AAAAABBBBBCCCCC'')
            \<lparr> chunkSize = 5, chunkOverlap = 2, separators = [] \<rparr>)
       = Some [5, 5, 5, 5, 3]"
  using fixed_chunk_lengths
    [of "\<lparr> chunkSize = 5, chunkOverlap = 2, separators = [] \<rparr>" "ascii ''AAAAABBBBBCCCCC''" int]
  by (simp add: generateFixedSizeChunks_def fixed_loop_step fixed_loop_stop dbl_exact
      js_slice_def ascii_def)

text \<open>
  With \<open>chunkOverlap \<ge> 2\<close> the windows near the end of the text are cut short before
  the last one: \<open>abcd\<close> with \<open>chunkSize = 3\<close> and \<open>chunkOverlap = 2\<close> gives chunks of
  3, 3, 2 and 1 code units, and the third is not the last.
\<close>

theorem fixed_chunk_lengths_counterexample:
  "map_option (map length')
     (generateFixedSizeChunks int (ascii ''abcd'')
        \<lparr> chunkSize = 3, chunkOverlap = 2, separators = [] \<rparr>)
   = Some [3, 3, 2, 1]"
  by (simp add: generateFixedSizeChunks_def fixed_loop_step fixed_loop_stop dbl_exact
      js_slice_def ascii_def)

section \<open>The clock shows in the identifiers only\<close>

text \<open>
  The loop of the fixed-size chunker under two clocks: when it returns under one, it
  returns under the other, with the same chunks up to their identifiers. (By induction on
  the run that returns: nothing is known of the step here.)
\<close>

lemma fixed_loop_clock_returns:
  assumes ret: "fixed_loop clock1 t csize step start i acc1 = Some r1"
    and acc: "map forget_id acc1 = map forget_id acc2"
  shows "\<exists>r2. fixed_loop clock2 t csize step start i acc2 = Some r2
              \<and> map forget_id r1 = map forget_id r2"
proof -
  let ?P = "\<lambda>(c :: nat \<Rightarrow> int) u a b s k (a1 :: Chunk list) (y :: Chunk list).
      \<forall>a2. map forget_id a1 = map forget_id a2 \<longrightarrow>
        (\<exists>r2. fixed_loop clock2 u a b s k a2 = Some r2 \<and> map forget_id y = map forget_id r2)"
  have "?P clock1 t csize step start i acc1 r1"
  proof (rule fixed_loop.raw_induct [where P = ?P, OF _ ret])
    fix f :: "(nat \<Rightarrow> int) \<Rightarrow> ustring \<Rightarrow> int \<Rightarrow> int \<Rightarrow> int \<Rightarrow> nat \<Rightarrow> Chunk list \<Rightarrow> Chunk list option"
    fix c u a b s k a1 y
    assume IH: "\<And>c u a b s k a1 y. f c u a b s k a1 = Some y \<Longrightarrow> ?P c u a b s k a1 y"
    assume unfolded:
      "(if s < int (length u)
        then f c u a b (dbl (s + b)) (k + 1)
               (a1 @ [mkChunk (ascii ''chunk-'') k (c k)
                        (js_slice u s (min (dbl (s + a)) (int (length u))))])
        else Some a1) = Some y"
    show "?P c u a b s k a1 y"
    proof (intro allI impI)
      fix a2 :: "Chunk list"
      assume same: "map forget_id a1 = map forget_id a2"
      show "\<exists>r2. fixed_loop clock2 u a b s k a2 = Some r2 \<and> map forget_id y = map forget_id r2"
      proof (cases "s < int (length u)")
        case False
        with unfolded have "y = a1" by simp
        with False same show ?thesis
          by (simp add: fixed_loop_stop)
      next
        case True
        let ?w = "js_slice u s (min (dbl (s + a)) (int (length u)))"
        from True unfolded have
          "f c u a b (dbl (s + b)) (k + 1) (a1 @ [mkChunk (ascii ''chunk-'') k (c k) ?w]) = Some y"
          by simp
        then have "?P c u a b (dbl (s + b)) (k + 1)
                     (a1 @ [mkChunk (ascii ''chunk-'') k (c k) ?w]) y"
          by (rule IH)
        moreover have "map forget_id (a1 @ [mkChunk (ascii ''chunk-'') k (c k) ?w])
                     = map forget_id (a2 @ [mkChunk (ascii ''chunk-'') k (clock2 k) ?w])"
          using same forget_id_mkChunk [of "ascii ''chunk-''" k "c k" ?w "clock2 k"]
          by simp
        ultimately obtain r2 where
          "fixed_loop clock2 u a b (dbl (s + b)) (k + 1)
             (a2 @ [mkChunk (ascii ''chunk-'') k (clock2 k) ?w]) = Some r2"
          and "map forget_id y = map forget_id r2"
          by blast
        with True show ?thesis
          by (simp add: fixed_loop_step)
      qed
    qed
  qed
  with acc show ?thesis
    by blast
qed

lemma fixed_loop_clock:
  assumes "map forget_id acc1 = map forget_id acc2"
  shows "map_option (map forget_id) (fixed_loop clock1 t csize step start i acc1)
       = map_option (map forget_id) (fixed_loop clock2 t csize step start i acc2)"
proof (cases "fixed_loop clock1 t csize step start i acc1")
  case (Some r1)
  with fixed_loop_clock_returns [OF Some assms, of clock2] show ?thesis
    by auto
next
  case None
  show ?thesis
  proof (cases "fixed_loop clock2 t csize step start i acc2")
    case (Some r2)
    with fixed_loop_clock_returns [OF Some assms [symmetric], of clock1] None show ?thesis
      by auto
  next
    case no: None
    with None show ?thesis by simp
  qed
qed

lemma generateFixedSizeChunks_clock:
  "map_option (map forget_id) (generateFixedSizeChunks clock1 t config)
   = map_option (map forget_id) (generateFixedSizeChunks clock2 t config)"
  using fixed_loop_clock [of "[]" "[]" clock1 t "chunkSize config" _ 0 0 clock2]
  by (simp add: generateFixedSizeChunks_def Let_def)

lemma generateRecursiveChunks_clock:
  "map_option (map forget_id) (generateRecursiveChunks clock1 t config)
   = map_option (map forget_id) (generateRecursiveChunks clock2 t config)"
  by (cases "packedChunks t config")
    (simp_all add: generateRecursiveChunks_def case_prod_beta
       forget_id_mkChunk [of _ _ "clock1 _" _ "clock2 _"])

lemma addChunk_same:
  "same_but_ids st1 st2 \<Longrightarrow> same_but_ids (addChunk clock1 st1 c) (addChunk clock2 st2 c)"
  using forget_id_mkChunk [of "ascii ''json-chunk-''" "nextIndex st2" "clock1 (clockReads st1)" c
      "clock2 (clockReads st2)"]
  by (simp add: same_but_ids_def addChunk_def)

lemma array_loop_same:
  "same_but_ids st1 st2 \<Longrightarrow>
   same_but_ids (fst (array_loop stringify clock1 csize items st1 batch sz))
                (fst (array_loop stringify clock2 csize items st2 batch sz))
   \<and> snd (array_loop stringify clock1 csize items st1 batch sz)
     = snd (array_loop stringify clock2 csize items st2 batch sz)"
proof (induction items arbitrary: st1 st2 batch sz)
  case Nil
  then show ?case by simp
next
  case (Cons item rest)
  then show ?case
    by (simp add: Let_def addChunk_same)
qed

lemma object_loop_same:
  "same_but_ids st1 st2 \<Longrightarrow>
   same_but_ids (fst (object_loop stringify clock1 csize entries st1 obj sz))
                (fst (object_loop stringify clock2 csize entries st2 obj sz))
   \<and> snd (object_loop stringify clock1 csize entries st1 obj sz)
     = snd (object_loop stringify clock2 csize entries st2 obj sz)"
proof (induction entries arbitrary: st1 st2 obj sz)
  case Nil
  then show ?case by simp
next
  case (Cons e rest)
  then show ?case
    by (cases e) (simp add: Let_def addChunk_same)
qed

lemma fold_addChunk_same:
  "map content rc1 = map content rc2 \<Longrightarrow> same_but_ids st1 st2 \<Longrightarrow>
   same_but_ids (fold (\<lambda>c s. addChunk clock1 s (content c)) rc1 st1)
                (fold (\<lambda>c s. addChunk clock2 s (content c)) rc2 st2)"
proof (induction rc1 arbitrary: rc2 st1 st2)
  case Nil
  then show ?case by simp
next
  case (Cons c rc1)
  then obtain d rc2' where rc2: "rc2 = d # rc2'" by (cases rc2) auto
  with Cons.prems have "content c = content d" "map content rc1 = map content rc2'"
    by simp_all
  with Cons.IH [of rc2' "addChunk clock1 st1 (content c)" "addChunk clock2 st2 (content d)"]
    Cons.prems(2) rc2
  show ?case
    by (simp add: addChunk_same)
qed

lemma same_but_ids_clockReads:
  "same_but_ids st1 st2 \<Longrightarrow> same_but_ids (st1\<lparr>clockReads := a\<rparr>) (st2\<lparr>clockReads := b\<rparr>)"
  by (simp add: same_but_ids_def)

lemma map_content_of_forget:
  "map forget_id xs = map forget_id ys \<Longrightarrow> map content xs = map content ys"
proof -
  assume "map forget_id xs = map forget_id ys"
  then have "map content (map forget_id xs) = map content (map forget_id ys)" by simp
  then show ?thesis by (simp add: comp_def)
qed

lemma processValue_same:
  assumes "same_but_ids st1 st2"
  shows "(processValue stringify clock1 config v st1 = None
            \<and> processValue stringify clock2 config v st2 = None)
       \<or> (\<exists>r1 r2. processValue stringify clock1 config v st1 = Some r1
            \<and> processValue stringify clock2 config v st2 = Some r2 \<and> same_but_ids r1 r2)"
proof (cases "int (length (stringify v)) \<le> chunkSize config")
  case True
  then show ?thesis
    using assms by (simp add: processValue_def addChunk_same)
next
  case big: False
  let ?g1 = "generateRecursiveChunks (\<lambda>k. clock1 (clockReads st1 + k)) (stringify v) config"
  let ?g2 = "generateRecursiveChunks (\<lambda>k. clock2 (clockReads st2 + k)) (stringify v) config"
  have g: "map_option (map forget_id) ?g1 = map_option (map forget_id) ?g2"
    by (rule generateRecursiveChunks_clock)
  have scalar: "(?g1 = None \<and> ?g2 = None) \<or>
      (\<exists>rc1 rc2. ?g1 = Some rc1 \<and> ?g2 = Some rc2 \<and>
         same_but_ids
           (fold (\<lambda>c s. addChunk clock1 s (content c)) rc1
              (st1\<lparr>clockReads := clockReads st1 + length rc1\<rparr>))
           (fold (\<lambda>c s. addChunk clock2 s (content c)) rc2
              (st2\<lparr>clockReads := clockReads st2 + length rc2\<rparr>)))"
  proof (cases ?g1)
    case None
    with g show ?thesis by (cases ?g2) simp_all
  next
    case (Some rc1)
    with g obtain rc2 where rc2: "?g2 = Some rc2" "map forget_id rc1 = map forget_id rc2"
      by (cases ?g2) simp_all
    from rc2(2) have mc: "map content rc1 = map content rc2"
      by (rule map_content_of_forget)
    have "same_but_ids
           (fold (\<lambda>c s. addChunk clock1 s (content c)) rc1
              (st1\<lparr>clockReads := clockReads st1 + length rc1\<rparr>))
           (fold (\<lambda>c s. addChunk clock2 s (content c)) rc2
              (st2\<lparr>clockReads := clockReads st2 + length rc2\<rparr>))"
      by (rule fold_addChunk_same [OF mc same_but_ids_clockReads [OF assms]])
    with Some rc2(1) show ?thesis
      by blast
  qed
  show ?thesis
  proof (cases v)
    case (JArray items)
    with big assms array_loop_same [OF assms, of stringify clock1 "chunkSize config" items "[]" 0 clock2]
    show ?thesis
      by (auto simp: processValue_def split_beta addChunk_same)
  next
    case (JObject entries)
    with big assms object_loop_same [OF assms, of stringify clock1 "chunkSize config" entries "[]" 2 clock2]
    show ?thesis
      by (auto simp: processValue_def split_beta addChunk_same)
  next
    case JNull
    with big scalar show ?thesis by (auto simp: processValue_def)
  next
    case (JBool b)
    with big scalar show ?thesis by (auto simp: processValue_def)
  next
    case (JNumber x)
    with big scalar show ?thesis by (auto simp: processValue_def)
  next
    case (JString s)
    with big scalar show ?thesis by (auto simp: processValue_def)
  qed
qed

lemma generateJsonChunks_clock:
  "map_option (map forget_id) (generateJsonChunks parse stringify clock1 t config)
   = map_option (map forget_id) (generateJsonChunks parse stringify clock2 t config)"
proof (cases "parse t")
  case None
  then show ?thesis
    by (simp add: generateJsonChunks_def generateRecursiveChunks_clock)
next
  case (Some data)
  have "same_but_ids \<lparr> emitted = [], nextIndex = 0, clockReads = 0 \<rparr>
                     \<lparr> emitted = [], nextIndex = 0, clockReads = 0 \<rparr>"
    by (simp add: same_but_ids_def)
  from processValue_same [OF this, of stringify clock1 config data clock2] Some
  show ?thesis
    by (auto simp: generateJsonChunks_def same_but_ids_def)
qed

text \<open>
  C8, as the code has it. Two invocations of the fixed-size, recursive, markdown or JSON
  chunker on the same text and configuration agree on whether they return and on the
  \<open>index\<close>, \<open>content\<close>, \<open>length\<close> and \<open>tokenCount\<close> of every chunk, whatever the
  clock shows; the identifiers embed \<open>Date.now()\<close>.
\<close>

theorem chunkers_depend_on_clock_only_in_ids:
  "map_option (map forget_id) (generateFixedSizeChunks clock1 t config)
     = map_option (map forget_id) (generateFixedSizeChunks clock2 t config)
   \<and> map_option (map forget_id) (generateRecursiveChunks clock1 t config)
     = map_option (map forget_id) (generateRecursiveChunks clock2 t config)
   \<and> map_option (map forget_id) (generateMarkdownChunks clock1 t config)
     = map_option (map forget_id) (generateMarkdownChunks clock2 t config)
   \<and> map_option (map forget_id) (generateJsonChunks parse stringify clock1 t config)
     = map_option (map forget_id) (generateJsonChunks parse stringify clock2 t config)"
  using generateFixedSizeChunks_clock [of clock1 t config clock2]
    generateRecursiveChunks_clock [of clock1 t config clock2]
    generateJsonChunks_clock [of parse stringify clock1 t config clock2]
  by (simp add: generateMarkdownChunks_def)

text \<open>
  Two invocations at different times return different identifiers: here the clock of the
  second invocation is one millisecond ahead.
\<close>

theorem chunk_ids_differ_counterexample:
  "generateFixedSizeChunks int (ascii ''a'') \<lparr> chunkSize = 5, chunkOverlap = 0, separators = [] \<rparr>
   \<noteq> generateFixedSizeChunks (int \<circ> Suc) (ascii ''a'')
       \<lparr> chunkSize = 5, chunkOverlap = 0, separators = [] \<rparr>"
  by (simp add: generateFixedSizeChunks_def fixed_loop_step fixed_loop_stop dbl_exact
      js_slice_def ascii_def mkChunk_def number_to_string_def decimal.simps)

section \<open>The JSON chunker\<close>

text \<open>
  C7. When \<open>JSON.parse\<close> fails, \<open>generateJsonChunks\<close> behaves as
  \<open>generateRecursiveChunks\<close> on the same text and configuration: it returns the same
  chunks, and the failure of the parser is not passed on.
\<close>

theorem json_fallback:
  assumes "parse t = None"
  shows "generateJsonChunks parse stringify clock t config
           = generateRecursiveChunks clock t config
         \<and> (chunkOverlap config < chunkSize config \<longrightarrow>
              generateJsonChunks parse stringify clock t config \<noteq> None)"
  using assms generateRecursiveChunks_returns [of config clock t]
  by (simp add: generateJsonChunks_def)

theorem json_fallback_witness:
  "example_parse (ascii ''not json'') = None
   \<and> generateJsonChunks example_parse example_stringify int (ascii ''not json'')
        \<lparr> chunkSize = 5, chunkOverlap = 0, separators = [ascii '' ''] \<rparr>
     = generateRecursiveChunks int (ascii ''not json'')
        \<lparr> chunkSize = 5, chunkOverlap = 0, separators = [ascii '' ''] \<rparr>
   \<and> map_option (map content)
       (generateRecursiveChunks int (ascii ''not json'')
          \<lparr> chunkSize = 5, chunkOverlap = 0, separators = [ascii '' ''] \<rparr>)
     = Some [ascii ''not '', ascii ''json'']"
proof -
  have p: "example_parse (ascii ''not json'') = None"
    by (simp add: example_parse_def ascii_def)
  have "map_option (map content)
       (generateRecursiveChunks int (ascii ''not json'')
          \<lparr> chunkSize = 5, chunkOverlap = 0, separators = [ascii '' ''] \<rparr>)
     = Some [ascii ''not '', ascii ''json'']"
    by (simp add: generateRecursiveChunks_def packedChunks_def js_split_def ascii_def
        js_slice_from_def js_slice_def js_trim_def is_whitespace_def)
  then show ?thesis
    using p
      json_fallback
        [where parse = example_parse and t = "ascii ''not json''"
           and stringify = example_stringify and clock = int
           and config = "\<lparr> chunkSize = 5, chunkOverlap = 0, separators = [ascii '' ''] \<rparr>"]
    by simp
qed

lemma fold_addChunk:
  "fold (\<lambda>x s. addChunk clock s (f x)) xs st =
     \<lparr> emitted = emitted st @
         map (\<lambda>(k, x). mkChunk (ascii ''json-chunk-'') (nextIndex st + k)
                          (clock (clockReads st + k)) (f x)) (enumerate 0 xs),
       nextIndex = nextIndex st + length xs,
       clockReads = clockReads st + length xs \<rparr>"
proof (induction xs arbitrary: st)
  case Nil
  show ?case by simp
next
  case (Cons x xs)
  let ?st' = "addChunk clock st (f x)"
  have "fold (\<lambda>x s. addChunk clock s (f x)) (x # xs) st
        = fold (\<lambda>x s. addChunk clock s (f x)) xs ?st'"
    by simp
  also have "\<dots> = \<lparr> emitted = emitted ?st' @
         map (\<lambda>(k, x). mkChunk (ascii ''json-chunk-'') (nextIndex ?st' + k)
                          (clock (clockReads ?st' + k)) (f x)) (enumerate 0 xs),
       nextIndex = nextIndex ?st' + length xs,
       clockReads = clockReads ?st' + length xs \<rparr>"
    by (rule Cons.IH)
  also have "\<dots> = \<lparr> emitted = emitted st @
         map (\<lambda>(k, x). mkChunk (ascii ''json-chunk-'') (nextIndex st + k)
                          (clock (clockReads st + k)) (f x)) (enumerate 0 (x # xs)),
       nextIndex = nextIndex st + length (x # xs),
       clockReads = clockReads st + length (x # xs) \<rparr>"
    by (simp add: addChunk_def enumerate_Suc_eq [of 0] case_prod_beta comp_def)
  finally show ?case .
qed

lemma array_loop_singletons:
  assumes "\<forall>k. Suc k < length (b # rest) \<longrightarrow>
             csize < (int (length (stringify ((b # rest) ! k))) + 2)
                   + (int (length (stringify ((b # rest) ! Suc k))) + 2)"
  shows "array_loop stringify clock csize rest st [b] (int (length (stringify b)) + 2)
         = (fold (\<lambda>item s. addChunk clock s (stringify (JArray [item]))) (butlast (b # rest)) st,
            [last (b # rest)])"
  using assms
proof (induction rest arbitrary: b st)
  case Nil
  show ?case by simp
next
  case (Cons item rest)
  from Cons.prems have first: "csize < (int (length (stringify b)) + 2) + (int (length (stringify item)) + 2)"
    by (auto dest: spec [of _ 0])
  have later: "\<forall>k. Suc k < length (item # rest) \<longrightarrow>
             csize < (int (length (stringify ((item # rest) ! k))) + 2)
                   + (int (length (stringify ((item # rest) ! Suc k))) + 2)"
  proof (intro allI impI)
    fix k assume "Suc k < length (item # rest)"
    with Cons.prems have "csize < (int (length (stringify ((b # item # rest) ! Suc k))) + 2)
                   + (int (length (stringify ((b # item # rest) ! Suc (Suc k)))) + 2)"
      by (auto dest: spec [of _ "Suc k"])
    then show "csize < (int (length (stringify ((item # rest) ! k))) + 2)
                   + (int (length (stringify ((item # rest) ! Suc k))) + 2)"
      by simp
  qed
  show ?case
    using first Cons.IH [OF later, of "addChunk clock st (stringify (JArray [b]))"]
    by (simp add: Let_def)
qed

text \<open>
  C6. When the text parses to an array whose serialization is longer than \<open>chunkSize\<close>,
  and no two neighbouring elements fit into \<open>chunkSize\<close> together (each counted with
  the 2 code units of overhead the chunker adds), the chunks are, in the order of the
  elements, the serializations of the one-element arrays. (That one element alone fits
  is not needed.)
\<close>

theorem json_array_one_element_per_chunk:
  assumes "parse t = Some (JArray items)"
    and "chunkSize config < int (length (stringify (JArray items)))"
    and "\<forall>k. Suc k < length items \<longrightarrow>
           chunkSize config < (int (length (stringify (items ! k))) + 2)
                            + (int (length (stringify (items ! Suc k))) + 2)"
  shows "generateJsonChunks parse stringify clock t config
         = Some (map (\<lambda>(k, item). mkChunk (ascii ''json-chunk-'') k (clock k)
                                     (stringify (JArray [item])))
                   (enumerate 0 items))"
proof (cases items)
  case Nil
  with assms(1,2) show ?thesis
    by (simp add: generateJsonChunks_def processValue_def)
next
  case (Cons b rest)
  let ?st0 = "\<lparr> emitted = [], nextIndex = 0, clockReads = 0 \<rparr>"
  have loop: "array_loop stringify clock (chunkSize config) items ?st0 [] 0
        = (fold (\<lambda>item s. addChunk clock s (stringify (JArray [item]))) (butlast items) ?st0,
           [last items])"
    using array_loop_singletons [of b rest "chunkSize config" stringify clock ?st0] assms(3) Cons
    by (simp add: Let_def)
  have "processValue stringify clock config (JArray items) ?st0
        = Some (fold (\<lambda>item s. addChunk clock s (stringify (JArray [item])))
                  (butlast items @ [last items]) ?st0)"
    using assms(2) loop by (simp add: processValue_def)
  also have "butlast items @ [last items] = items"
    using Cons by simp
  finally show ?thesis
    using assms(1) by (simp add: generateJsonChunks_def fold_addChunk)
qed

theorem json_array_one_element_per_chunk_witness:
  "example_parse (ascii ''[1,2]'') = Some (JArray [JNumber 1, JNumber 2])
   \<and> chunkSize \<lparr> chunkSize = 4, chunkOverlap = 0, separators = [] \<rparr>
       < int (length (example_stringify (JArray [JNumber 1, JNumber 2])))
   \<and> map_option (map content)
        (generateJsonChunks example_parse example_stringify int (ascii ''[1,2]'')
           \<lparr> chunkSize = 4, chunkOverlap = 0, separators = [] \<rparr>)
     = Some [[0x5B, 0x0A, 0x20, 0x20, 0x31, 0x0A, 0x5D], [0x5B, 0x0A, 0x20, 0x20, 0x32, 0x0A, 0x5D]]"
proof -
  let ?config = "\<lparr> chunkSize = 4, chunkOverlap = 0, separators = [] \<rparr>"
  let ?items = "[JNumber 1, JNumber 2]"
  have p: "example_parse (ascii ''[1,2]'') = Some (JArray ?items)"
    by (simp add: example_parse_def)
  have big: "chunkSize ?config < int (length (example_stringify (JArray ?items)))"
    by (simp add: example_stringify_def)
  have two: "\<forall>k. Suc k < length ?items \<longrightarrow>
           chunkSize ?config < (int (length (example_stringify (?items ! k))) + 2)
                            + (int (length (example_stringify (?items ! Suc k))) + 2)"
    by (simp add: example_stringify_def ascii_def)
  show ?thesis
    using p big two
      json_array_one_element_per_chunk
        [where parse = example_parse and t = "ascii ''[1,2]''" and items = ?items
           and config = ?config and stringify = example_stringify and clock = int]
    by (simp add: example_stringify_def)
qed

section \<open>The length field\<close>

lemma codepoint_count_le: "codepoint_count s \<le> length s"
  by (induction s rule: codepoint_count.induct) auto

lemma addChunk_units:
  "\<forall>c \<in> set (emitted st). length' c = length (content c) \<Longrightarrow>
   \<forall>c \<in> set (emitted (addChunk clock st s)). length' c = length (content c)"
  by (simp add: addChunk_def)

lemma array_loop_units:
  "\<forall>c \<in> set (emitted st). length' c = length (content c) \<Longrightarrow>
   \<forall>c \<in> set (emitted (fst (array_loop stringify clock csize items st batch sz))).
      length' c = length (content c)"
proof (induction items arbitrary: st batch sz)
  case Nil
  then show ?case by simp
next
  case (Cons item rest)
  show ?case
    using Cons.IH [OF Cons.prems] Cons.IH [OF addChunk_units [OF Cons.prems]]
    by (simp add: Let_def)
qed

lemma object_loop_units:
  "\<forall>c \<in> set (emitted st). length' c = length (content c) \<Longrightarrow>
   \<forall>c \<in> set (emitted (fst (object_loop stringify clock csize entries st obj sz))).
      length' c = length (content c)"
proof (induction entries arbitrary: st obj sz)
  case Nil
  then show ?case by simp
next
  case (Cons e rest)
  obtain k v where e: "e = (k, v)" by (cases e)
  show ?case
    using Cons.IH [OF Cons.prems] Cons.IH [OF addChunk_units [OF Cons.prems]]
    by (simp add: Let_def e)
qed

lemma generateRecursiveChunks_units:
  "generateRecursiveChunks clock t config = Some chunks \<Longrightarrow>
   \<forall>c \<in> set chunks. length' c = length (content c)"
  by (auto simp: generateRecursiveChunks_def split: option.splits)

lemma processValue_units:
  assumes "\<forall>c \<in> set (emitted st). length' c = length (content c)"
    and "processValue stringify clock config v st = Some st'"
  shows "\<forall>c \<in> set (emitted st'). length' c = length (content c)"
proof (cases "int (length (stringify v)) \<le> chunkSize config")
  case True
  with assms(2) addChunk_units [OF assms(1)] show ?thesis
    by (auto simp: processValue_def)
next
  case big: False
  have scalar: "\<forall>c \<in> set (emitted st'). length' c = length (content c)"
    if "generateRecursiveChunks (\<lambda>k. clock (clockReads st + k)) (stringify v) config = Some rc"
      and "st' = fold (\<lambda>c s. addChunk clock s (content c)) rc
                   (st\<lparr>clockReads := clockReads st + length rc\<rparr>)" for rc
    using that assms(1) by (auto simp: fold_addChunk case_prod_beta)
  show ?thesis
  proof (cases v)
    case (JArray items)
    with big assms(2)
      array_loop_units [OF assms(1), of stringify clock "chunkSize config" items "[]" 0]
    show ?thesis
      by (auto simp: processValue_def split_beta addChunk_def split: if_splits)
  next
    case (JObject entries)
    with big assms(2)
      object_loop_units [OF assms(1), of stringify clock "chunkSize config" entries "[]" 2]
    show ?thesis
      by (auto simp: processValue_def split_beta addChunk_def split: if_splits)
  next
    case JNull
    with big assms(2) scalar show ?thesis
      by (auto simp: processValue_def split: option.splits)
  next
    case (JBool b)
    with big assms(2) scalar show ?thesis
      by (auto simp: processValue_def split: option.splits)
  next
    case (JNumber x)
    with big assms(2) scalar show ?thesis
      by (auto simp: processValue_def split: option.splits)
  next
    case (JString s)
    with big assms(2) scalar show ?thesis
      by (auto simp: processValue_def split: option.splits)
  qed
qed

lemma generateJsonChunks_units:
  assumes "generateJsonChunks parse stringify clock t config = Some chunks"
  shows "\<forall>c \<in> set chunks. length' c = length (content c)"
proof (cases "parse t")
  case None
  with assms show ?thesis
    by (simp add: generateJsonChunks_def generateRecursiveChunks_units)
next
  case (Some data)
  with assms obtain st' where
    "processValue stringify clock config data \<lparr> emitted = [], nextIndex = 0, clockReads = 0 \<rparr>
       = Some st'" and "chunks = emitted st'"
    by (auto simp: generateJsonChunks_def)
  then show ?thesis
    using processValue_units [of "\<lparr> emitted = [], nextIndex = 0, clockReads = 0 \<rparr>"
        stringify clock config data st']
    by simp
qed

lemma fixed_loop_units:
  assumes ret: "fixed_loop clock t csize step start i acc = Some r"
    and acc: "\<forall>c \<in> set acc. length' c = length (content c)"
  shows "\<forall>c \<in> set r. length' c = length (content c)"
proof -
  let ?P = "\<lambda>(c :: nat \<Rightarrow> int) (u :: ustring) (a :: int) (b :: int) (s :: int) (k :: nat)
              (a1 :: Chunk list) (y :: Chunk list).
      (\<forall>x \<in> set a1. length' x = length (content x)) \<longrightarrow>
      (\<forall>x \<in> set y. length' x = length (content x))"
  have "?P clock t csize step start i acc r"
  proof (rule fixed_loop.raw_induct [where P = ?P, OF _ ret])
    fix f :: "(nat \<Rightarrow> int) \<Rightarrow> ustring \<Rightarrow> int \<Rightarrow> int \<Rightarrow> int \<Rightarrow> nat \<Rightarrow> Chunk list \<Rightarrow> Chunk list option"
    fix c u a b s k a1 y
    assume IH: "\<And>c u a b s k a1 y. f c u a b s k a1 = Some y \<Longrightarrow> ?P c u a b s k a1 y"
    assume unfolded:
      "(if s < int (length u)
        then f c u a b (dbl (s + b)) (k + 1)
               (a1 @ [mkChunk (ascii ''chunk-'') k (c k)
                        (js_slice u s (min (dbl (s + a)) (int (length u))))])
        else Some a1) = Some y"
    show "?P c u a b s k a1 y"
    proof (cases "s < int (length u)")
      case False
      with unfolded show ?thesis by simp
    next
      case True
      let ?w = "js_slice u s (min (dbl (s + a)) (int (length u)))"
      from True unfolded have
        "f c u a b (dbl (s + b)) (k + 1) (a1 @ [mkChunk (ascii ''chunk-'') k (c k) ?w]) = Some y"
        by simp
      then have "?P c u a b (dbl (s + b)) (k + 1)
                   (a1 @ [mkChunk (ascii ''chunk-'') k (c k) ?w]) y"
        by (rule IH)
      then show ?thesis by simp
    qed
  qed
  with acc show ?thesis
    by blast
qed

lemma generateFixedSizeChunks_units:
  assumes "generateFixedSizeChunks clock t config = Some chunks"
  shows "\<forall>c \<in> set chunks. length' c = length (content c)"
proof (cases "chunkSize config \<le> 0")
  case True
  with assms show ?thesis by (simp add: generateFixedSizeChunks_def)
next
  case False
  with assms show ?thesis
    by (auto simp: generateFixedSizeChunks_def Let_def dest: fixed_loop_units)
qed

lemma units_as_maps:
  "(\<And>chunks. r = Some chunks \<Longrightarrow> \<forall>c \<in> set chunks. length' c = length (content c)) \<Longrightarrow>
   map_option (map length') r = map_option (map (\<lambda>c. length (content c))) r"
  by (cases r) simp_all

text \<open>
  C9, as the code has it. The \<open>length\<close> of every chunk of every strategy is the number
  of UTF-16 code units of its content (\<open>content.length\<close>).
\<close>

theorem chunk_length_counts_code_units:
  "map_option (map length') (generateFixedSizeChunks clock t config)
     = map_option (map (\<lambda>c. length (content c))) (generateFixedSizeChunks clock t config)
   \<and> map_option (map length') (generateRecursiveChunks clock t config)
     = map_option (map (\<lambda>c. length (content c))) (generateRecursiveChunks clock t config)
   \<and> map_option (map length') (generateMarkdownChunks clock t config)
     = map_option (map (\<lambda>c. length (content c))) (generateMarkdownChunks clock t config)
   \<and> map_option (map length') (generateJsonChunks parse stringify clock t config)
     = map_option (map (\<lambda>c. length (content c)))
         (generateJsonChunks parse stringify clock t config)
   \<and> map length' (semanticChunkRecords clock rawChunks) = map length rawChunks"
proof -
  have "map length' (semanticChunkRecords clock rawChunks)
        = map (length \<circ> snd) (enumerate 0 rawChunks)"
    by (simp add: semanticChunkRecords_def case_prod_beta comp_def)
  also have "\<dots> = map length (map snd (enumerate 0 rawChunks))"
    by (simp only: map_map)
  also have "\<dots> = map length rawChunks"
    by (simp only: map_snd_enumerate)
  finally have "map length' (semanticChunkRecords clock rawChunks) = map length rawChunks" .
  then show ?thesis
    using units_as_maps [OF generateFixedSizeChunks_units, of "generateFixedSizeChunks clock t config"]
      units_as_maps [OF generateRecursiveChunks_units, of "generateRecursiveChunks clock t config"]
      units_as_maps [OF generateJsonChunks_units,
        of "generateJsonChunks parse stringify clock t config"]
    by (simp add: generateMarkdownChunks_def)
qed

text \<open>
  The character U+1F600 is one code point and the surrogate pair D83D DE00: the chunk
  that holds it has \<open>length\<close> 2.
\<close>

theorem chunk_length_not_code_points_counterexample:
  "map_option (map length')
     (generateFixedSizeChunks int [0xD83D, 0xDE00]
        \<lparr> chunkSize = 5, chunkOverlap = 0, separators = [] \<rparr>) = Some [2]
   \<and> codepoint_count [0xD83D, 0xDE00] = 1"
  by (simp add: generateFixedSizeChunks_def fixed_loop_step fixed_loop_stop dbl_exact
      js_slice_def)

end
